theory Spec2Isabelle
  imports Main "HOL-Library.AList"
begin

section \<open>The core package: domain types\<close>

text \<open>
  Go strings are byte sequences and are modelled as \<open>string\<close> (a list of 8-bit characters).
  The structs of the core package become records. Two structs of the source share the field
  names \<open>Owner\<close> and \<open>Reason\<close>; the fields of \<open>PRRef\<close> and \<open>Decision\<close> carry a prefix
  to keep them apart.
\<close>

record Subject =
  Title :: string
  URL :: string
  Type :: string

record Repository =
  FullName :: string
  Owner :: string

record Notification =
  ID :: string
  Reason :: string
  Subject :: Subject
  Repository :: Repository

record Reviewers =
  Users :: "string list"
  Teams :: "string list"

text \<open>\<open>type Action int\<close> with the three constants numbered by \<open>iota\<close>.\<close>

type_synonym Action = int

definition ActionSkip :: Action where
  "ActionSkip = 0"

definition ActionKeep :: Action where
  "ActionKeep = 1"

definition ActionMute :: Action where
  "ActionMute = 2"

record Decision =
  D_Notification :: Notification
  D_Action :: Action
  D_Reason :: string

record PRRef =
  PR_Owner :: string
  PR_Repo :: string
  PR_Number :: int

record Config =
  IncludeOrg :: string
  ExcludeOrg :: string

section \<open>Case-insensitive comparison\<close>

text \<open>
  \<open>strings.EqualFold\<close> of the Go library compares two strings byte by byte as long as
  both bytes are ASCII: equal bytes match, and an upper-case letter matches the lower-case
  letter 32 above it. The strings must have the same length. Beyond ASCII the library goes on
  with Unicode simple folding over runes; the model compares such bytes exactly, which is
  the library's behaviour on every ASCII string (logins and organization names are ASCII).
\<close>

definition fold_byte_eq :: "char \<Rightarrow> char \<Rightarrow> bool" where
  "fold_byte_eq sr tr =
     (if tr = sr then True
      else
        (let lo = (if (of_char tr :: nat) < of_char sr then tr else sr);
             hi = (if (of_char tr :: nat) < of_char sr then sr else tr)
         in (65::nat) \<le> of_char lo \<and> (of_char lo :: nat) \<le> 90
            \<and> (of_char hi :: nat) = of_char lo + 32))"

fun EqualFold :: "string \<Rightarrow> string \<Rightarrow> bool" where
  "EqualFold [] [] = True"
| "EqualFold (sr # s) (tr # t) = (if fold_byte_eq sr tr then EqualFold s t else False)"
| "EqualFold _ _ = False"



section \<open>The classifier\<close>

definition MatchesOrgFilter :: "Notification \<Rightarrow> Config \<Rightarrow> bool" where
  "MatchesOrgFilter n cfg =
     (let org = Owner (Repository n) in
      if IncludeOrg cfg \<noteq> [] \<and> \<not> EqualFold org (IncludeOrg cfg) then False
      else if ExcludeOrg cfg \<noteq> [] \<and> EqualFold org (ExcludeOrg cfg) then False
      else True)"

definition NeedsReviewerLookup :: "Notification \<Rightarrow> Config \<Rightarrow> bool" where
  "NeedsReviewerLookup n cfg =
     (if Reason n \<noteq> ''review_requested'' then False
      else if Type (Subject n) \<noteq> ''PullRequest'' then False
      else MatchesOrgFilter n cfg)"

text \<open>
  The loop of \<open>Classify\<close> over \<open>reviewers.Users\<close>: it returns at the first user that
  matches the login; \<open>True\<close> stands for that early return.
\<close>

fun users_loop :: "string list \<Rightarrow> string \<Rightarrow> bool" where
  "users_loop [] login = False"
| "users_loop (user # rest) login =
     (if EqualFold user login then True else users_loop rest login)"

text \<open>The reviewers pointer may be \<open>nil\<close>: an \<open>option\<close>.\<close>

definition Classify :: "Notification \<Rightarrow> Reviewers option \<Rightarrow> string \<Rightarrow> Config \<Rightarrow> Decision" where
  "Classify n reviewers login cfg =
     (if \<not> MatchesOrgFilter n cfg then
        \<lparr>D_Notification = n, D_Action = ActionSkip, D_Reason = ''filtered by org''\<rparr>
      else if Reason n \<noteq> ''review_requested'' \<or> Type (Subject n) \<noteq> ''PullRequest'' then
        \<lparr>D_Notification = n, D_Action = ActionSkip, D_Reason = ''not a review-requested PR''\<rparr>
      else
        (case reviewers of
           None \<Rightarrow>
             \<lparr>D_Notification = n, D_Action = ActionSkip, D_Reason = ''no reviewer data''\<rparr>
         | Some r \<Rightarrow>
             if users_loop (Users r) login then
               \<lparr>D_Notification = n, D_Action = ActionKeep, D_Reason = ''direct review request''\<rparr>
             else
               \<lparr>D_Notification = n, D_Action = ActionMute,
                D_Reason = ''team-only review request''\<rparr>))"

text \<open>
  The map \<open>map[string]*Reviewers\<close> is a partial function: a missing key reads as \<open>nil\<close>.
  The loop of \<open>ClassifyAll\<close> appends one decision per notification to the slice it builds.
\<close>

fun ClassifyAll_loop ::
  "Notification list \<Rightarrow> (string \<rightharpoonup> Reviewers) \<Rightarrow> string \<Rightarrow> Config \<Rightarrow> Decision list
     \<Rightarrow> Decision list" where
  "ClassifyAll_loop [] reviewersByURL login cfg decisions = decisions"
| "ClassifyAll_loop (n # rest) reviewersByURL login cfg decisions =
     (let reviewers = reviewersByURL (URL (Subject n)) in
      ClassifyAll_loop rest reviewersByURL login cfg
        (decisions @ [Classify n reviewers login cfg]))"

definition ClassifyAll ::
  "Notification list \<Rightarrow> (string \<rightharpoonup> Reviewers) \<Rightarrow> string \<Rightarrow> Config \<Rightarrow> Decision list" where
  "ClassifyAll notifications reviewersByURL login cfg =
     ClassifyAll_loop notifications reviewersByURL login cfg []"

text \<open>
  \<open>CountByAction\<close>: three counters, each bumped by the matching case of the switch; a
  decision whose action is none of the three constants bumps none.
\<close>

fun CountByAction_loop :: "Decision list \<Rightarrow> int \<times> int \<times> int \<Rightarrow> int \<times> int \<times> int" where
  "CountByAction_loop [] (skip, keep, mute) = (skip, keep, mute)"
| "CountByAction_loop (d # rest) (skip, keep, mute) =
     (if D_Action d = ActionSkip then CountByAction_loop rest (skip + 1, keep, mute)
      else if D_Action d = ActionKeep then CountByAction_loop rest (skip, keep + 1, mute)
      else if D_Action d = ActionMute then CountByAction_loop rest (skip, keep, mute + 1)
      else CountByAction_loop rest (skip, keep, mute))"

definition CountByAction :: "Decision list \<Rightarrow> int \<times> int \<times> int" where
  "CountByAction decisions = CountByAction_loop decisions (0, 0, 0)"

section \<open>Errors and the library functions the parser uses\<close>

text \<open>
  Go errors are values. \<open>Errorf\<close> is an error made of a message alone, \<open>Wrapf\<close> a message
  that wraps another error with \<open>%w\<close>, \<open>AtoiError\<close> the \<open>NumError\<close> of \<open>strconv.Atoi\<close>
  with the rejected input (its cause, \<open>ErrSyntax\<close> or \<open>ErrRange\<close>, is not recorded) and
  \<open>TransportError\<close> an error of the HTTP library.
\<close>

datatype error =
    Errorf string
  | Wrapf string error
  | AtoiError string
  | TransportError string

definition HasPrefix :: "string \<Rightarrow> string \<Rightarrow> bool" where
  "HasPrefix s p = (length p \<le> length s \<and> take (length p) s = p)"

definition TrimPrefix :: "string \<Rightarrow> string \<Rightarrow> string" where
  "TrimPrefix s p = (if HasPrefix s p then drop (length p) s else s)"

text \<open>
  \<open>strings.Split\<close> with a separator of one byte: the pieces between the separators, one
  piece more than there are separators (so the empty string gives one empty piece).
\<close>

fun Split :: "string \<Rightarrow> char \<Rightarrow> string list" where
  "Split [] sep = [[]]"
| "Split (c # cs) sep =
     (if c = sep then [] # Split cs sep
      else (case Split cs sep of [] \<Rightarrow> [[c]] | p # ps \<Rightarrow> (c # p) # ps))"

definition is_digit :: "char \<Rightarrow> bool" where
  "is_digit ch = ((48::nat) \<le> of_char ch \<and> (of_char ch :: nat) \<le> 57)"

text \<open>The digit loop of \<open>strconv.Atoi\<close>: \<open>n = n*10 + (ch - '0')\<close>, \<open>None\<close> at a byte
  that is no decimal digit.\<close>

fun digits_loop :: "string \<Rightarrow> int \<Rightarrow> int option" where
  "digits_loop [] n = Some n"
| "digits_loop (ch # rest) n =
     (if is_digit ch then digits_loop rest (n * 10 + (int (of_char ch) - 48)) else None)"

text \<open>
  \<open>strconv.Atoi\<close> for the 64-bit \<open>int\<close> of the build (the image is built for a 64-bit
  platform): an optional sign, at least one decimal digit, nothing else, and a value that fits
  in 64 bits; everything else is an error.
\<close>

definition Atoi :: "string \<Rightarrow> error + int" where
  "Atoi s0 =
     (if s0 = [] then Inl (AtoiError s0)
      else
        (let s = (if hd s0 = CHR ''-'' \<or> hd s0 = CHR ''+'' then tl s0 else s0) in
         if s = [] then Inl (AtoiError s0)
         else
           (case digits_loop s 0 of
              None \<Rightarrow> Inl (AtoiError s0)
            | Some m \<Rightarrow>
                (let n = (if hd s0 = CHR ''-'' then - m else m) in
                 if n < - (2 ^ 63) \<or> 2 ^ 63 - 1 < n then Inl (AtoiError s0)
                 else Inr n))))"

text \<open>Decimal formatting, the \<open>%d\<close> of \<open>fmt.Sprintf\<close>.\<close>

fun digits_of :: "nat \<Rightarrow> string" where
  "digits_of n =
     (if n < 10 then [char_of (48 + n)]
      else digits_of (n div 10) @ [char_of (48 + n mod 10)])"

declare digits_of.simps [simp del]

definition Itoa :: "int \<Rightarrow> string" where
  "Itoa i = (if i < 0 then CHR ''-'' # digits_of (nat (- i)) else digits_of (nat i))"

section \<open>Parsing the subject reference\<close>

definition ParseSubjectURL :: "string \<Rightarrow> error + PRRef" where
  "ParseSubjectURL url =
     (let prefix = ''https://api.github.com/repos/'' in
      if \<not> HasPrefix url prefix then Inl (Errorf (''unexpected URL prefix: '' @ url))
      else
        (let rest = TrimPrefix url prefix;
             parts = Split rest (CHR ''/'') in
         if length parts \<noteq> 4 \<or> parts ! 2 \<noteq> ''pulls'' then
           Inl (Errorf (''unexpected URL structure: '' @ url))
         else
           (case Atoi (parts ! 3) of
              Inl err \<Rightarrow> Inl (Wrapf (''invalid PR number in URL '' @ url) err)
            | Inr number \<Rightarrow>
                Inr \<lparr>PR_Owner = parts ! 0, PR_Repo = parts ! 1, PR_Number = number\<rparr>)))"

text \<open>
  The shape the specification asks of a pull-request reference, written from its words:
  the API root, \<open>repos\<close>, an owner and a repository (segments without a slash), \<open>pulls\<close>
  and a number in decimal digits, with nothing after it.
\<close>

definition pull_reference :: "string \<Rightarrow> string \<Rightarrow> string \<Rightarrow> string" where
  "pull_reference owner repo num =
     ''https://api.github.com/repos/'' @ owner @ ''/'' @ repo @ ''/pulls/'' @ num"

definition segment :: "string \<Rightarrow> bool" where
  "segment s = (CHR ''/'' \<notin> set s)"

text \<open>
  A decimal numeral with an optional sign, and the number it denotes: the digits after the
  sign, at least one, each worth its place.
\<close>

definition decimal_value :: "string \<Rightarrow> int" where
  "decimal_value ds = foldl (\<lambda>n ch. n * 10 + (int (of_char ch) - 48)) 0 ds"

definition unsigned_part :: "string \<Rightarrow> string" where
  "unsigned_part num =
     (case num of
        [] \<Rightarrow> []
      | ch # ds \<Rightarrow> if ch = CHR ''+'' \<or> ch = CHR ''-'' then ds else num)"

definition signed_decimal :: "string \<Rightarrow> bool" where
  "signed_decimal num = (unsigned_part num \<noteq> [] \<and> list_all is_digit (unsigned_part num))"

definition signed_value :: "string \<Rightarrow> int" where
  "signed_value num =
     (case num of
        [] \<Rightarrow> 0
      | ch # ds \<Rightarrow>
          if ch = CHR ''-'' then - decimal_value ds else decimal_value (unsigned_part num))"

definition fits_int :: "int \<Rightarrow> bool" where
  "fits_int k = (- (2 ^ 63) \<le> k \<and> k \<le> 2 ^ 63 - 1)"

section \<open>The GitHub client: requests, responses and the world outside\<close>

text \<open>
  A request as \<open>http.NewRequest\<close> builds it and a response as \<open>httpClient.Do\<close> returns it.
  Headers are association lists; \<open>Header.Get\<close> of a missing key is the empty string.
\<close>

record Request =
  Method :: string
  ReqURL :: string
  ReqHeader :: "(string \<times> string) list"
  ReqBody :: string

record Response =
  StatusCode :: int
  Header :: "(string \<times> string) list"
  Body :: string

definition Header_Get :: "(string \<times> string) list \<Rightarrow> string \<Rightarrow> string" where
  "Header_Get h k = (case map_of h k of None \<Rightarrow> [] | Some v \<Rightarrow> v)"

definition Header_Set :: "Request \<Rightarrow> string \<Rightarrow> string \<Rightarrow> Request" where
  "Header_Set req k v = req\<lparr>ReqHeader := AList.update k v (ReqHeader req)\<rparr>"

text \<open>
  What the client does to the world is recorded as a list of events, oldest first: a request
  handed to the transport, and a \<open>time.Sleep\<close> with its duration in nanoseconds.
\<close>

datatype event = Sent Request | Slept int

text \<open>The JSON types of the file, before their conversion to the core types.\<close>

record ghSubject =
  gh_title :: string
  gh_url :: string
  gh_type :: string

record ghOwner =
  gh_owner_login :: string

record ghRepository =
  gh_full_name :: string
  gh_owner :: ghOwner

record ghNotification =
  gh_id :: string
  gh_reason :: string
  gh_subject :: ghSubject
  gh_repository :: ghRepository

record ghReviewersResponse =
  gh_users :: "string list"
  gh_teams :: "string list"

text \<open>
  The environment of the client, a parameter of the model: the transport (the answer to a
  request may depend on everything that happened before it), whether \<open>http.NewRequest\<close>
  accepts a URL, and the JSON decoders of the two response bodies.
\<close>

record env =
  RoundTrip :: "event list \<Rightarrow> Request \<Rightarrow> error + Response"
  ParseURL_ok :: "string \<Rightarrow> bool"
  DecodeNotifications :: "string \<Rightarrow> error + ghNotification list"
  DecodeReviewers :: "string \<Rightarrow> error + ghReviewersResponse"

record GitHubClient =
  client_token :: string
  client_login :: string

text \<open>
  \<open>time.Duration\<close> is a signed 64-bit count of nanoseconds; \<open>time.Duration(secs) * time.Second\<close>
  wraps around.
\<close>

type_synonym Duration = int

definition wrap64 :: "int \<Rightarrow> int" where
  "wrap64 x = (x + 2 ^ 63) mod 2 ^ 64 - 2 ^ 63"

definition Second :: Duration where
  "Second = 1000000000"

definition seconds :: "int \<Rightarrow> Duration" where
  "seconds secs = wrap64 (secs * Second)"

text \<open>
  \<open>http.NewRequest\<close>. The body is an \<open>io.Reader\<close>: \<open>nil\<close>, or a \<open>strings.Reader\<close>, which is
  stateful. The model passes what is still unread of it (\<open>None\<close> for \<open>nil\<close>): the request
  carries that remainder, and sending the request reads the reader to its end.
\<close>

definition NewRequest :: "env \<Rightarrow> string \<Rightarrow> string \<Rightarrow> string option \<Rightarrow> error + Request" where
  "NewRequest e method url body =
     (if \<not> ParseURL_ok e url then Inl (TransportError (''parse '' @ url))
      else Inr \<lparr>Method = method, ReqURL = url, ReqHeader = [],
                ReqBody = (case body of None \<Rightarrow> [] | Some unread \<Rightarrow> unread)\<rparr>)"

definition drained :: "string option \<Rightarrow> string option" where
  "drained body = (case body of None \<Rightarrow> None | Some unread \<Rightarrow> Some [])"

definition httpClient_Do :: "env \<Rightarrow> Request \<Rightarrow> event list \<Rightarrow> (error + Response) \<times> event list" where
  "httpClient_Do e req evs = (RoundTrip e evs req, evs @ [Sent req])"

definition setStandardHeaders :: "GitHubClient \<Rightarrow> Request \<Rightarrow> Request" where
  "setStandardHeaders c req =
     Header_Set
       (Header_Set
          (Header_Set req ''Accept'' ''application/vnd.github+json'')
          ''Authorization'' (''Bearer '' @ client_token c))
       ''X-GitHub-Api-Version'' ''2022-11-28''"

definition isRateLimited :: "Response \<Rightarrow> bool" where
  "isRateLimited resp =
     (if StatusCode resp = 429 then True
      else StatusCode resp = 403 \<and> Header_Get (Header resp) ''Retry-After'' \<noteq> [])"

definition parseRetryAfter :: "Response \<Rightarrow> Duration" where
  "parseRetryAfter resp =
     (let s = Header_Get (Header resp) ''Retry-After'' in
      if s = [] then wrap64 (60 * Second)
      else (case Atoi s of
              Inl err \<Rightarrow> wrap64 (60 * Second)
            | Inr secs \<Rightarrow> seconds secs))"

text \<open>
  \<open>do\<close>: the loop \<open>for attempt := range 2\<close> runs over the attempts \<open>[0, 1]\<close>; each round
  builds the request anew from the method, the URL and the body reader.
\<close>

fun do_loop ::
  "env \<Rightarrow> GitHubClient \<Rightarrow> string \<Rightarrow> string \<Rightarrow> int list \<Rightarrow> string option \<Rightarrow> event list
     \<Rightarrow> (error + Response) \<times> event list" where
  "do_loop e c method url [] body evs = (Inl (Errorf ''exhausted retries''), evs)"
| "do_loop e c method url (attempt # attempts) body evs =
     (case NewRequest e method url body of
        Inl err \<Rightarrow> (Inl err, evs)
      | Inr req0 \<Rightarrow>
          (let req = setStandardHeaders c req0;
               (r, evs1) = httpClient_Do e req evs in
           case r of
             Inl err \<Rightarrow> (Inl err, evs1)
           | Inr resp \<Rightarrow>
               if attempt = 0 \<and> isRateLimited resp then
                 (let wait = parseRetryAfter resp;
                      evs2 = evs1 @ [Slept wait] in
                  do_loop e c method url attempts (drained body) evs2)
               else (Inr resp, evs1)))"

definition do ::
  "env \<Rightarrow> GitHubClient \<Rightarrow> string \<Rightarrow> string \<Rightarrow> string option \<Rightarrow> event list
     \<Rightarrow> (error + Response) \<times> event list" where
  "do e c method url body evs = do_loop e c method url [0, 1] body evs"




definition toReviewers :: "ghReviewersResponse \<Rightarrow> Reviewers" where
  "toReviewers gr = \<lparr>Users = gh_users gr, Teams = gh_teams gr\<rparr>"





definition GetRequestedReviewers ::
  "env \<Rightarrow> GitHubClient \<Rightarrow> string \<Rightarrow> event list \<Rightarrow> (error + Reviewers) \<times> event list" where
  "GetRequestedReviewers e c subjectURL evs =
     (case ParseSubjectURL subjectURL of
        Inl err \<Rightarrow> (Inl (Wrapf ''get reviewers'' err), evs)
      | Inr ref \<Rightarrow>
          (let url = ''https://api.github.com/repos/'' @ PR_Owner ref @ ''/'' @ PR_Repo ref
                       @ ''/pulls/'' @ Itoa (PR_Number ref) @ ''/requested_reviewers'';
               label = ''get reviewers for '' @ PR_Owner ref @ ''/'' @ PR_Repo ref @ ''#''
                         @ Itoa (PR_Number ref);
               (r, evs1) = do e c ''GET'' url None evs in
           case r of
             Inl err \<Rightarrow> (Inl (Wrapf label err), evs1)
           | Inr resp \<Rightarrow>
               if StatusCode resp \<noteq> 200 then
                 (Inl (Errorf (label @ '': unexpected status '' @ Itoa (StatusCode resp))),
                  evs1)
               else
                 (case DecodeReviewers e (Body resp) of
                    Inl err \<Rightarrow> (Inl (Wrapf label err), evs1)
                  | Inr ghReviewers \<Rightarrow> (Inr (toReviewers ghReviewers), evs1))))"

text \<open>The two mutations return an error or \<open>nil\<close> (\<open>None\<close>).\<close>

definition MarkThreadRead ::
  "env \<Rightarrow> GitHubClient \<Rightarrow> string \<Rightarrow> event list \<Rightarrow> error option \<times> event list" where
  "MarkThreadRead e c threadID evs =
     (let url = ''https://api.github.com/notifications/threads/'' @ threadID;
          (r, evs1) = do e c ''PATCH'' url None evs in
      case r of
        Inl err \<Rightarrow> (Some (Wrapf (''mark thread '' @ threadID @ '' read'') err), evs1)
      | Inr resp \<Rightarrow>
          if StatusCode resp \<noteq> 205 \<and> StatusCode resp \<noteq> 200 then
            (Some (Errorf (''mark thread '' @ threadID @ '' read: unexpected status ''
                     @ Itoa (StatusCode resp))), evs1)
          else (None, evs1))"

definition ignored_true :: string where
  "ignored_true = ''{'' @ [CHR 0x22] @ ''ignored'' @ [CHR 0x22] @ '':true}''"

definition IgnoreThread ::
  "env \<Rightarrow> GitHubClient \<Rightarrow> string \<Rightarrow> event list \<Rightarrow> error option \<times> event list" where
  "IgnoreThread e c threadID evs =
     (let url = ''https://api.github.com/notifications/threads/'' @ threadID
                  @ ''/subscription'';
          body = Some ignored_true;
          (r, evs1) = do e c ''PUT'' url body evs in
      case r of
        Inl err \<Rightarrow> (Some (Wrapf (''ignore thread '' @ threadID) err), evs1)
      | Inr resp \<Rightarrow>
          if StatusCode resp \<noteq> 200 \<and> StatusCode resp \<noteq> 201 then
            (Some (Errorf (''ignore thread '' @ threadID @ '': unexpected status ''
                     @ Itoa (StatusCode resp))), evs1)
          else (None, evs1))"

section \<open>The cycle: \<open>processNotifications\<close>, \<open>runOnce\<close> and one round of \<open>runDaemon\<close>\<close>

text \<open>
  What the program prints. The texts of the decision and mutation rows are formatting and
  stay abstract: a row is recorded with the values it is formatted from.
\<close>

datatype out_line =
    Println string
  | Print string
  | StderrError error
  | LogPrintf string
  | LogWarning error
  | LogCycleError error
  | MutationRow Decision "error option"
  | DecisionRow Decision

text \<open>
  The calls to the client that \<open>processNotifications\<close> makes, with whether each returned
  without error: a trace kept beside the program's own variables, to state what was called
  and in which order.
\<close>

datatype call =
    CallGetRequestedReviewers string bool
  | CallMarkThreadRead string bool
  | CallIgnoreThread string bool

record cycle_state =
  reviewersByURL :: "string \<rightharpoonup> Reviewers"
  decisions :: "Decision list"
  errCount :: int
  calls :: "call list"
  printed :: "out_line list"
  events :: "event list"

text \<open>The first part of the loop body: fetch reviewer data if needed (with dedup).\<close>

definition lookup_step ::
  "env \<Rightarrow> GitHubClient \<Rightarrow> Config \<Rightarrow> bool \<Rightarrow> Notification \<Rightarrow> cycle_state \<Rightarrow> cycle_state" where
  "lookup_step e c cfg verbose n st =
     (if NeedsReviewerLookup n cfg then
        (case reviewersByURL st (URL (Subject n)) of
           Some cached \<Rightarrow> st
         | None \<Rightarrow>
             (let (r, evs1) = GetRequestedReviewers e c (URL (Subject n)) (events st) in
              case r of
                Inl err \<Rightarrow>
                  st\<lparr>calls := calls st @ [CallGetRequestedReviewers (URL (Subject n)) False],
                     printed := printed st @ (if verbose then [LogWarning err] else []),
                     events := evs1\<rparr>
              | Inr reviewers \<Rightarrow>
                  st\<lparr>reviewersByURL := (reviewersByURL st)(URL (Subject n) \<mapsto> reviewers),
                     calls := calls st @ [CallGetRequestedReviewers (URL (Subject n)) True],
                     events := evs1\<rparr>))
      else st)"

text \<open>The last part of the loop body: print and optionally mutate.\<close>

definition mutate_step ::
  "env \<Rightarrow> GitHubClient \<Rightarrow> bool \<Rightarrow> Decision \<Rightarrow> cycle_state \<Rightarrow> cycle_state" where
  "mutate_step e c apply d st =
     (if apply \<and> D_Action d = ActionMute then
        (let (r1, evs1) = MarkThreadRead e c (ID (D_Notification d)) (events st) in
         case r1 of
           Some err \<Rightarrow>
             st\<lparr>errCount := errCount st + 1,
                calls := calls st @ [CallMarkThreadRead (ID (D_Notification d)) False],
                printed := printed st @ [MutationRow d (Some err)],
                events := evs1\<rparr>
         | None \<Rightarrow>
             (let (r2, evs2) = IgnoreThread e c (ID (D_Notification d)) evs1 in
              case r2 of
                Some err \<Rightarrow>
                  st\<lparr>errCount := errCount st + 1,
                     calls := calls st @ [CallMarkThreadRead (ID (D_Notification d)) True,
                                          CallIgnoreThread (ID (D_Notification d)) False],
                     printed := printed st @ [MutationRow d (Some err)],
                     events := evs2\<rparr>
              | None \<Rightarrow>
                  st\<lparr>calls := calls st @ [CallMarkThreadRead (ID (D_Notification d)) True,
                                          CallIgnoreThread (ID (D_Notification d)) True],
                     printed := printed st @ [MutationRow d None],
                     events := evs2\<rparr>))
      else if \<not> apply then st\<lparr>printed := printed st @ [DecisionRow d]\<rparr>
      else st)"

definition processNotifications_body ::
  "env \<Rightarrow> GitHubClient \<Rightarrow> Config \<Rightarrow> bool \<Rightarrow> bool \<Rightarrow> Notification \<Rightarrow> cycle_state
     \<Rightarrow> cycle_state" where
  "processNotifications_body e c cfg apply verbose n st =
     (let st1 = lookup_step e c cfg verbose n st;
          d = Classify n (reviewersByURL st1 (URL (Subject n))) (client_login c) cfg;
          st2 = st1\<lparr>decisions := decisions st1 @ [d]\<rparr>
      in mutate_step e c apply d st2)"

fun processNotifications_loop ::
  "env \<Rightarrow> GitHubClient \<Rightarrow> Config \<Rightarrow> Notification list \<Rightarrow> bool \<Rightarrow> bool \<Rightarrow> cycle_state
     \<Rightarrow> cycle_state" where
  "processNotifications_loop e c cfg [] apply verbose st = st"
| "processNotifications_loop e c cfg (n # rest) apply verbose st =
     processNotifications_loop e c cfg rest apply verbose
       (processNotifications_body e c cfg apply verbose n st)"

text \<open>
  \<open>processNotifications\<close> returns the decisions and the error count; the model returns the
  whole final state, which holds both, with the trace of calls, the output and the events.
\<close>

definition processNotifications ::
  "env \<Rightarrow> GitHubClient \<Rightarrow> Config \<Rightarrow> Notification list \<Rightarrow> bool \<Rightarrow> bool \<Rightarrow> event list
     \<Rightarrow> cycle_state" where
  "processNotifications e c cfg notifications apply verbose evs =
     processNotifications_loop e c cfg notifications apply verbose
       \<lparr>reviewersByURL = Map.empty, decisions = [], errCount = 0, calls = [],
        printed = [], events = evs\<rparr>"







section \<open>Reading the trace of calls\<close>

text \<open>The outcomes of the reviewer lookups made for one subject URL, in order.\<close>

fun lookups_of :: "string \<Rightarrow> call list \<Rightarrow> bool list" where
  "lookups_of url [] = []"
| "lookups_of url (CallGetRequestedReviewers u ok # cs) =
     (if u = url then ok # lookups_of url cs else lookups_of url cs)"
| "lookups_of url (c # cs) = lookups_of url cs"

text \<open>A successful lookup, if there is one, is the last one.\<close>

fun success_last :: "bool list \<Rightarrow> bool" where
  "success_last [] = True"
| "success_last (ok # rest) = (if ok then rest = [] else success_last rest)"

text \<open>
  The mutation calls of a trace, read as one group per muted decision: a failed mark-as-read
  alone, or a successful mark-as-read followed at once by the ignore call for the same
  thread. A group is the thread and whether the whole mutation succeeded. The result is
  \<open>None\<close> when the calls do not have that form: an ignore call that does not follow a
  successful mark-as-read of its thread, or a successful mark-as-read without its ignore
  call. Lookups are passed over.
\<close>

fun mutation_groups :: "call list \<Rightarrow> (string \<times> bool) list option" where
  "mutation_groups [] = Some []"
| "mutation_groups (CallGetRequestedReviewers u ok # cs) = mutation_groups cs"
| "mutation_groups (CallMarkThreadRead i False # cs) =
     map_option ((#) (i, False)) (mutation_groups cs)"
| "mutation_groups (CallMarkThreadRead i True # CallIgnoreThread j ok # cs) =
     (if i = j then map_option ((#) (i, ok)) (mutation_groups cs) else None)"
| "mutation_groups (c # cs) = None"

text \<open>The threads of the decisions with action Mute, in order.\<close>

definition muted_threads :: "Decision list \<Rightarrow> string list" where
  "muted_threads ds = map (\<lambda>d. ID (D_Notification d)) (filter (\<lambda>d. D_Action d = ActionMute) ds)"

definition failed_groups :: "(string \<times> bool) list \<Rightarrow> int" where
  "failed_groups gs = int (length (filter (\<lambda>g. \<not> snd g) gs))"

text \<open>
  Two invariants of the loop of \<open>processNotifications\<close>. The first: the calls so far read
  as mutation groups, one per muted decision when mutations are applied, and the error
  count is the number of failed groups. The second: the cache holds a subject URL exactly
  when a lookup for it has succeeded, and no lookup for a URL follows a successful one.
\<close>

definition mutation_inv :: "bool \<Rightarrow> cycle_state \<Rightarrow> bool" where
  "mutation_inv ap st =
     (case mutation_groups (calls st) of
        None \<Rightarrow> False
      | Some gs \<Rightarrow>
          map fst gs = (if ap then muted_threads (decisions st) else [])
          \<and> errCount st = failed_groups gs)"

abbreviation lookup_inv :: "cycle_state \<Rightarrow> bool" where
  "lookup_inv st \<equiv>
     (\<forall>url. (reviewersByURL st url \<noteq> None \<longleftrightarrow> True \<in> set (lookups_of url (calls st)))
        \<and> success_last (lookups_of url (calls st)))"

definition needing :: "Config \<Rightarrow> string \<Rightarrow> Notification list \<Rightarrow> Notification list" where
  "needing cfg url ns = filter (\<lambda>n. URL (Subject n) = url \<and> NeedsReviewerLookup n cfg) ns"

section \<open>Example data\<close>

text \<open>The notifications and configurations of the test file, used to run the model.\<close>

definition prNotif :: Notification where
  "prNotif =
     \<lparr>ID = ''1'', Reason = ''review_requested'',
      Subject = \<lparr>Title = ''Fix bug'', URL = ''https://api.github.com/repos/org/repo/pulls/42'',
                 Type = ''PullRequest''\<rparr>,
      Repository = \<lparr>FullName = ''org/repo'', Owner = ''org''\<rparr>\<rparr>"

definition mentionNotif :: Notification where
  "mentionNotif =
     \<lparr>ID = ''3'', Reason = ''mention'',
      Subject = \<lparr>Title = ''Issue 1'', URL = [], Type = ''Issue''\<rparr>,
      Repository = \<lparr>FullName = ''org/repo'', Owner = ''org''\<rparr>\<rparr>"

definition prNotif2 :: Notification where
  "prNotif2 =
     \<lparr>ID = ''2'', Reason = ''review_requested'',
      Subject = \<lparr>Title = ''PR 2'', URL = ''https://api.github.com/repos/org/repo/pulls/2'',
                 Type = ''PullRequest''\<rparr>,
      Repository = \<lparr>FullName = ''org/repo'', Owner = ''org''\<rparr>\<rparr>"

definition batchReviewers :: "string \<rightharpoonup> Reviewers" where
  "batchReviewers =
     [''https://api.github.com/repos/org/repo/pulls/42''
        \<mapsto> \<lparr>Users = [''alice'', ''me''], Teams = []\<rparr>,
      ''https://api.github.com/repos/org/repo/pulls/2''
        \<mapsto> \<lparr>Users = [''alice''], Teams = [''backend'']\<rparr>]"

definition noFilter :: Config where
  "noFilter = \<lparr>IncludeOrg = [], ExcludeOrg = []\<rparr>"

text \<open>
  A client, and five servers: one that answers every request with status 500; one that
  serves every GET (an empty inbox; for a reviewer lookup the user \<open>alice\<close> and the team
  \<open>backend\<close>) and answers every other request with status 500; one that serves
  everything; one that throttles the first request it sees with status 429 and serves
  every later one; and one that answers every request with status 304.
\<close>

definition client0 :: GitHubClient where
  "client0 = \<lparr>client_token = ''t'', client_login = ''me''\<rparr>"

definition always500 :: env where
  "always500 =
     \<lparr>RoundTrip = (\<lambda>evs req. Inr \<lparr>StatusCode = 500, Header = [], Body = []\<rparr>),
      ParseURL_ok = (\<lambda>url. True),
      DecodeNotifications = (\<lambda>b. Inr []),
      DecodeReviewers = (\<lambda>b. Inr \<lparr>gh_users = [], gh_teams = []\<rparr>)\<rparr>"

definition readOnly :: env where
  "readOnly =
     \<lparr>RoundTrip = (\<lambda>evs req.
        if Method req = ''GET'' then Inr \<lparr>StatusCode = 200, Header = [], Body = []\<rparr>
        else Inr \<lparr>StatusCode = 500, Header = [], Body = []\<rparr>),
      ParseURL_ok = (\<lambda>url. True),
      DecodeNotifications = (\<lambda>b. Inr []),
      DecodeReviewers = (\<lambda>b. Inr \<lparr>gh_users = [''alice''], gh_teams = [''backend'']\<rparr>)\<rparr>"

definition throttledOnce :: env where
  "throttledOnce =
     \<lparr>RoundTrip = (\<lambda>evs req.
        if evs = [] then Inr \<lparr>StatusCode = 429, Header = [], Body = []\<rparr>
        else Inr \<lparr>StatusCode = 200, Header = [], Body = []\<rparr>),
      ParseURL_ok = (\<lambda>url. True),
      DecodeNotifications = (\<lambda>b. Inr []),
      DecodeReviewers = (\<lambda>b. Inr \<lparr>gh_users = [], gh_teams = []\<rparr>)\<rparr>"

definition serveAll :: env where
  "serveAll =
     \<lparr>RoundTrip = (\<lambda>evs req.
        if Method req = ''PATCH'' then Inr \<lparr>StatusCode = 205, Header = [], Body = []\<rparr>
        else Inr \<lparr>StatusCode = 200, Header = [], Body = []\<rparr>),
      ParseURL_ok = (\<lambda>url. True),
      DecodeNotifications = (\<lambda>b. Inr []),
      DecodeReviewers = (\<lambda>b. Inr \<lparr>gh_users = [''alice''], gh_teams = [''backend'']\<rparr>)\<rparr>"


definition prNotif7 :: Notification where
  "prNotif7 = prNotif\<lparr>ID := ''7''\<rparr>"

definition url42 :: string where
  "url42 = ''https://api.github.com/repos/org/repo/pulls/42''"

definition lookup42 :: Request where
  "lookup42 =
     \<lparr>Method = ''GET'',
      ReqURL = ''https://api.github.com/repos/org/repo/pulls/42/requested_reviewers'',
      ReqHeader =
        [(''Accept'', ''application/vnd.github+json''), (''Authorization'', ''Bearer t''),
         (''X-GitHub-Api-Version'', ''2022-11-28'')],
      ReqBody = []\<rparr>"




definition stdHeader :: "(string \<times> string) list" where
  "stdHeader =
     [(''Accept'', ''application/vnd.github+json''), (''Authorization'', ''Bearer t''),
      (''X-GitHub-Api-Version'', ''2022-11-28'')]"

section \<open>Properties of the classifier\<close>





text \<open>
  Claim C2. \<open>NeedsReviewerLookup\<close> is true exactly when the notification passes the org
  filter, its reason is \<open>review_requested\<close> and its subject type is \<open>PullRequest\<close>. Where
  it is false, \<open>Classify\<close> returns Skip for every reviewer argument, absent or present.
  Where it is true, \<open>Classify\<close> reaches its reviewer-dependent part: Skip for want of
  reviewer data, and otherwise Keep or Mute as the user list decides.
\<close>

theorem NeedsReviewerLookup_consistent:
  "(NeedsReviewerLookup n cfg \<longleftrightarrow>
      MatchesOrgFilter n cfg \<and> Reason n = ''review_requested''
      \<and> Type (Subject n) = ''PullRequest'')
   \<and> (\<not> NeedsReviewerLookup n cfg \<longrightarrow>
        (\<forall>rv. D_Action (Classify n rv me cfg) = ActionSkip))
   \<and> (NeedsReviewerLookup n cfg \<longrightarrow>
        Classify n None me cfg
          = \<lparr>D_Notification = n, D_Action = ActionSkip, D_Reason = ''no reviewer data''\<rparr>
        \<and> (\<forall>r. Classify n (Some r) me cfg
              = (if users_loop (Users r) me
                 then \<lparr>D_Notification = n, D_Action = ActionKeep,
                       D_Reason = ''direct review request''\<rparr>
                 else \<lparr>D_Notification = n, D_Action = ActionMute,
                       D_Reason = ''team-only review request''\<rparr>)))"
  by (auto simp add: NeedsReviewerLookup_def Classify_def)

theorem NeedsReviewerLookup_consistent_witness:
  "\<not> NeedsReviewerLookup mentionNotif noFilter
   \<and> D_Action (Classify mentionNotif (Some \<lparr>Users = [''me''], Teams = []\<rparr>) ''me'' noFilter)
       = ActionSkip
   \<and> NeedsReviewerLookup prNotif noFilter
   \<and> D_Action (Classify prNotif None ''me'' noFilter) = ActionSkip
   \<and> D_Action (Classify prNotif (Some \<lparr>Users = [''alice''], Teams = [''backend'']\<rparr>) ''me''
                 noFilter) = ActionMute"
  using NeedsReviewerLookup_consistent [where n = mentionNotif and cfg = noFilter
          and me = "''me''"]
        NeedsReviewerLookup_consistent [where n = prNotif and cfg = noFilter
          and me = "''me''"]
  by (simp add: prNotif_def mentionNotif_def noFilter_def MatchesOrgFilter_def
        NeedsReviewerLookup_def fold_byte_eq_def)

subsection \<open>The org filter\<close>









subsection \<open>Batches\<close>

lemma ClassifyAll_loop_eq:
  "ClassifyAll_loop ns m me cfg ds
     = ds @ map (\<lambda>n. Classify n (m (URL (Subject n))) me cfg) ns"
  by (induction ns arbitrary: ds) simp_all

lemma Classify_notification: "D_Notification (Classify n rv me cfg) = n"
  by (simp add: Classify_def split: option.split)

lemma Classify_action_range:
  "D_Action (Classify n rv me cfg) \<in> {ActionSkip, ActionKeep, ActionMute}"
  by (simp add: Classify_def split: option.split)

lemma CountByAction_loop_sum:
  "\<forall>d \<in> set ds. D_Action d \<in> {ActionSkip, ActionKeep, ActionMute} \<Longrightarrow>
   CountByAction_loop ds (s, k, m) = (s', k', m') \<Longrightarrow>
   s' + k' + m' = s + k + m + int (length ds)"
proof (induction ds arbitrary: s k m)
  case Nil
  then show ?case by simp
next
  case (Cons d ds)
  then show ?case
    by (auto split: if_splits)
qed

text \<open>
  Claim C7. \<open>ClassifyAll\<close> produces one decision per notification, in the order of the
  input: the decision at each position is the classification of the notification at that
  position, with the reviewers the map holds for its subject URL. \<open>CountByAction\<close> on these
  decisions gives skip, keep and mute counts whose sum is the number of notifications.
\<close>

theorem ClassifyAll_partition:
  "ClassifyAll ns m me cfg = map (\<lambda>n. Classify n (m (URL (Subject n))) me cfg) ns
   \<and> length (ClassifyAll ns m me cfg) = length ns
   \<and> map D_Notification (ClassifyAll ns m me cfg) = ns
   \<and> (case CountByAction (ClassifyAll ns m me cfg) of
        (skip, keep, mute) \<Rightarrow> skip + keep + mute = int (length ns))"
proof -
  have eq: "ClassifyAll ns m me cfg
              = map (\<lambda>n. Classify n (m (URL (Subject n))) me cfg) ns"
    by (simp add: ClassifyAll_def ClassifyAll_loop_eq)
  have nots: "map D_Notification (ClassifyAll ns m me cfg) = ns"
    by (simp add: eq Classify_notification comp_def)
  have range: "\<forall>d \<in> set (ClassifyAll ns m me cfg).
      D_Action d \<in> {ActionSkip, ActionKeep, ActionMute}"
    unfolding eq using Classify_action_range by auto
  obtain s k mu where c: "CountByAction (ClassifyAll ns m me cfg) = (s, k, mu)"
    by (cases "CountByAction (ClassifyAll ns m me cfg)") auto
  from CountByAction_loop_sum [OF range c [unfolded CountByAction_def]]
  have "s + k + mu = int (length ns)" by (simp add: eq)
  with eq nots c show ?thesis by simp
qed

theorem ClassifyAll_partition_witness:
  "map D_Action (ClassifyAll [prNotif, prNotif2, mentionNotif] batchReviewers ''me'' noFilter)
     = [ActionKeep, ActionMute, ActionSkip]
   \<and> map D_Notification
        (ClassifyAll [prNotif, prNotif2, mentionNotif] batchReviewers ''me'' noFilter)
     = [prNotif, prNotif2, mentionNotif]
   \<and> CountByAction
        (ClassifyAll [prNotif, prNotif2, mentionNotif] batchReviewers ''me'' noFilter)
     = (1, 1, 1)"
  using ClassifyAll_partition [of "[prNotif, prNotif2, mentionNotif]" batchReviewers
          "''me''" noFilter]
  by (simp add: prNotif_def prNotif2_def mentionNotif_def noFilter_def batchReviewers_def
        Classify_def MatchesOrgFilter_def fold_byte_eq_def CountByAction_def
        ActionSkip_def ActionKeep_def ActionMute_def)

text \<open>
  Claim C9. The teams of the reviewer set have no influence on \<open>Classify\<close>: two reviewer
  sets with the same users give the same decision, action and reason alike.
\<close>

theorem Classify_ignores_teams:
  "Users r1 = Users r2 \<Longrightarrow> Classify n (Some r1) me cfg = Classify n (Some r2) me cfg"
  by (simp add: Classify_def)

theorem Classify_ignores_teams_witness:
  "Users \<lparr>Users = [''alice''], Teams = [''backend'']\<rparr>
     = Users \<lparr>Users = [''alice''], Teams = []\<rparr>
   \<and> Classify prNotif (Some \<lparr>Users = [''alice''], Teams = [''backend'']\<rparr>) ''me'' noFilter
     = Classify prNotif (Some \<lparr>Users = [''alice''], Teams = []\<rparr>) ''me'' noFilter"
  using Classify_ignores_teams [of "\<lparr>Users = [''alice''], Teams = [''backend'']\<rparr>"
          "\<lparr>Users = [''alice''], Teams = []\<rparr>" prNotif "''me''" noFilter]
  by simp

section \<open>Properties of the parser\<close>

lemma Split_nonempty: "Split s sep \<noteq> []"
  by (induction s) (auto split: list.split)

lemma Split_no_sep: "p \<in> set (Split s sep) \<Longrightarrow> sep \<notin> set p"
  by (induction s arbitrary: p) (auto split: if_splits list.splits)

lemma Split_append: "sep \<notin> set a \<Longrightarrow> Split (a @ sep # s) sep = a # Split s sep"
  by (induction a) (auto split: list.split)

lemma Split_id: "sep \<notin> set a \<Longrightarrow> Split a sep = [a]"
  by (induction a) (auto split: list.split)

lemma Split_single: "Split s sep = [p] \<Longrightarrow> s = p"
  by (induction s arbitrary: p) (auto split: if_splits list.splits simp: Split_nonempty)

lemma Split_Cons_Cons:
  "Split s sep = p # q # ps \<Longrightarrow> \<exists>s'. s = p @ sep # s' \<and> Split s' sep = q # ps"
proof (induction s arbitrary: p)
  case Nil
  then show ?case by simp
next
  case (Cons c cs)
  show ?case
  proof (cases "c = sep")
    case True
    with Cons.prems show ?thesis by auto
  next
    case False
    with Cons.prems obtain p' where p: "p = c # p'" and sp: "Split cs sep = p' # q # ps"
      by (auto split: list.splits)
    from Cons.IH [OF sp] obtain s' where "cs = p' @ sep # s'" "Split s' sep = q # ps" by blast
    with p show ?thesis by auto
  qed
qed

lemma Split_four:
  "Split s sep = [a, b, c, d] \<longleftrightarrow>
     s = a @ sep # b @ sep # c @ sep # d \<and> sep \<notin> set a \<and> sep \<notin> set b \<and> sep \<notin> set c \<and> sep \<notin> set d"
proof
  assume h: "Split s sep = [a, b, c, d]"
  from Split_Cons_Cons [OF h] obtain s1 where s1: "s = a @ sep # s1" "Split s1 sep = [b, c, d]" by blast
  from Split_Cons_Cons [OF s1(2)] obtain s2 where s2: "s1 = b @ sep # s2" "Split s2 sep = [c, d]" by blast
  from Split_Cons_Cons [OF s2(2)] obtain s3 where s3: "s2 = c @ sep # s3" "Split s3 sep = [d]" by blast
  from Split_single [OF s3(2)] have "s3 = d" .
  moreover have "\<forall>p \<in> set (Split s sep). sep \<notin> set p" using Split_no_sep by blast
  ultimately show "s = a @ sep # b @ sep # c @ sep # d \<and> sep \<notin> set a \<and> sep \<notin> set b \<and> sep \<notin> set c \<and> sep \<notin> set d"
    using s1 s2 s3 h by simp
next
  assume "s = a @ sep # b @ sep # c @ sep # d \<and> sep \<notin> set a \<and> sep \<notin> set b \<and> sep \<notin> set c \<and> sep \<notin> set d"
  then show "Split s sep = [a, b, c, d]"
    by (simp add: Split_append Split_id)
qed

lemma length_Split: "length (Split s sep) = Suc (count_list s sep)"
  by (induction s) (auto split: list.split simp: Split_nonempty)

lemma digits_loop_eq:
  "digits_loop s n =
     (if list_all is_digit s
      then Some (foldl (\<lambda>n ch. n * 10 + (int (of_char ch) - 48)) n s) else None)"
  by (induction s arbitrary: n) auto

lemma Atoi_eq:
  "Atoi num =
     (if signed_decimal num \<and> fits_int (signed_value num) then Inr (signed_value num)
      else Inl (AtoiError num))"
proof (cases num)
  case Nil
  then show ?thesis by (simp add: Atoi_def signed_decimal_def unsigned_part_def)
next
  case (Cons ch ds)
  consider "ch = CHR ''-''" | "ch = CHR ''+''" | "ch \<noteq> CHR ''-''" "ch \<noteq> CHR ''+''"
    by blast
  then show ?thesis
  proof cases
    case 1
    with Cons show ?thesis
      by (simp add: Atoi_def signed_decimal_def unsigned_part_def signed_value_def
          fits_int_def decimal_value_def digits_loop_eq Let_def)
  next
    case 2
    with Cons show ?thesis
      by (simp add: Atoi_def signed_decimal_def unsigned_part_def signed_value_def
          fits_int_def decimal_value_def digits_loop_eq Let_def)
  next
    case 3
    with Cons show ?thesis
      by (simp add: Atoi_def signed_decimal_def unsigned_part_def signed_value_def
          fits_int_def decimal_value_def digits_loop_eq Let_def)
  qed
qed

lemma is_digit_not_slash: "is_digit ch \<Longrightarrow> ch \<noteq> CHR ''/''"
  by (auto simp add: is_digit_def)

lemma signed_decimal_segment: "signed_decimal num \<Longrightarrow> segment num"
proof -
  assume h: "signed_decimal num"
  have "\<And>ds. list_all is_digit ds \<Longrightarrow> CHR ''/'' \<notin> set ds"
    using is_digit_not_slash by (auto simp add: list_all_iff)
  with h show ?thesis
    by (cases num)
      (auto simp add: signed_decimal_def unsigned_part_def segment_def is_digit_def
         split: if_splits)
qed

lemma HasPrefix_iff: "HasPrefix s p \<longleftrightarrow> (\<exists>rest. s = p @ rest)"
  by (metis HasPrefix_def append_eq_conv_conj append_take_drop_id length_append le_add1)

lemma TrimPrefix_append: "TrimPrefix (p @ rest) p = rest"
  by (simp add: TrimPrefix_def HasPrefix_def)

lemma ParseSubjectURL_Inr_iff:
  "(ParseSubjectURL url = Inr ref \<longleftrightarrow>
      (\<exists>owner repo num.
         url = pull_reference owner repo num \<and> segment owner \<and> segment repo
         \<and> signed_decimal num \<and> fits_int (signed_value num)
         \<and> ref = \<lparr>PR_Owner = owner, PR_Repo = repo, PR_Number = signed_value num\<rparr>))"
proof
  assume ok: "ParseSubjectURL url = Inr ref"
  let ?p = "''https://api.github.com/repos/''"
  from ok have hp: "HasPrefix url ?p"
    by (simp add: ParseSubjectURL_def Let_def split: if_splits)
  then obtain rest where url: "url = ?p @ rest" by (auto simp only: HasPrefix_iff)
  have tp: "TrimPrefix url ?p = rest" unfolding url by (rule TrimPrefix_append)
  let ?parts = "Split rest (CHR ''/'')"
  from ok hp tp have len: "length ?parts = 4" and pulls: "?parts ! 2 = ''pulls''"
    by (simp_all add: ParseSubjectURL_def Let_def split: if_splits)
  from len obtain a b c d where parts: "?parts = [a, b, c, d]"
    by (auto simp add: length_Suc_conv numeral_eq_Suc)
  with pulls have c: "c = ''pulls''" by simp
  from ok hp tp parts c obtain k where at: "Atoi d = Inr k"
      and ref: "ref = \<lparr>PR_Owner = a, PR_Repo = b, PR_Number = k\<rparr>"
    by (auto simp add: ParseSubjectURL_def Let_def split: if_splits sum.splits)
  from at have d: "signed_decimal d" "fits_int (signed_value d)" "k = signed_value d"
    by (auto simp add: Atoi_eq split: if_splits)
  from parts have "rest = a @ CHR ''/'' # b @ CHR ''/'' # c @ CHR ''/'' # d"
      and "CHR ''/'' \<notin> set a" and "CHR ''/'' \<notin> set b"
    by (simp_all add: Split_four)
  with url c d ref show "\<exists>owner repo num.
         url = pull_reference owner repo num \<and> segment owner \<and> segment repo
         \<and> signed_decimal num \<and> fits_int (signed_value num)
         \<and> ref = \<lparr>PR_Owner = owner, PR_Repo = repo, PR_Number = signed_value num\<rparr>"
    by (intro exI [of _ a] exI [of _ b] exI [of _ d]) (simp add: pull_reference_def segment_def)
next
  assume "\<exists>owner repo num.
         url = pull_reference owner repo num \<and> segment owner \<and> segment repo
         \<and> signed_decimal num \<and> fits_int (signed_value num)
         \<and> ref = \<lparr>PR_Owner = owner, PR_Repo = repo, PR_Number = signed_value num\<rparr>"
  then obtain owner repo num where url: "url = pull_reference owner repo num"
      and seg: "segment owner" "segment repo"
      and num: "signed_decimal num" "fits_int (signed_value num)"
      and ref: "ref = \<lparr>PR_Owner = owner, PR_Repo = repo, PR_Number = signed_value num\<rparr>"
    by blast
  let ?p = "''https://api.github.com/repos/''"
  let ?rest = "owner @ CHR ''/'' # repo @ CHR ''/'' # ''pulls'' @ CHR ''/'' # num"
  have u: "url = ?p @ ?rest" by (simp add: url pull_reference_def)
  have hp: "HasPrefix url ?p" unfolding u HasPrefix_iff by blast
  have tp: "TrimPrefix url ?p = ?rest" unfolding u by (rule TrimPrefix_append)
  from signed_decimal_segment [OF num(1)] seg
  have parts: "Split ?rest (CHR ''/'') = [owner, repo, ''pulls'', num]"
    by (subst Split_four) (simp add: segment_def)
  show "ParseSubjectURL url = Inr ref"
    unfolding ParseSubjectURL_def Let_def tp parts using hp num ref
    by (simp add: Atoi_eq)
qed

lemma ParseSubjectURL_rest:
  "ParseSubjectURL (''https://api.github.com/repos/'' @ rest) =
     (let parts = Split rest (CHR ''/'') in
      if length parts \<noteq> 4 \<or> parts ! 2 \<noteq> ''pulls'' then
        Inl (Errorf (''unexpected URL structure: '' @ ''https://api.github.com/repos/'' @ rest))
      else
        (case Atoi (parts ! 3) of
           Inl err \<Rightarrow>
             Inl (Wrapf (''invalid PR number in URL '' @ ''https://api.github.com/repos/'' @ rest)
                    err)
         | Inr number \<Rightarrow>
             Inr \<lparr>PR_Owner = parts ! 0, PR_Repo = parts ! 1, PR_Number = number\<rparr>))"
proof -
  let ?p = "''https://api.github.com/repos/''"
  have hp: "HasPrefix (?p @ rest) ?p" unfolding HasPrefix_iff by blast
  have tp: "TrimPrefix (?p @ rest) ?p = rest" by (rule TrimPrefix_append)
  show ?thesis
    unfolding ParseSubjectURL_def Let_def tp using hp by simp
qed

lemma count_list_zero: "count_list s c = 0 \<longleftrightarrow> c \<notin> set s"
  by (induction s) auto

lemma issues_fails:
  assumes "segment owner" "segment repo"
  shows "isl (ParseSubjectURL
           (''https://api.github.com/repos/'' @ owner @ ''/'' @ repo @ ''/issues/'' @ num))"
proof -
  let ?rest = "owner @ CHR ''/'' # repo @ CHR ''/'' # ''issues'' @ CHR ''/'' # num"
  have sp: "Split ?rest (CHR ''/'') = owner # repo # ''issues'' # Split num (CHR ''/'')"
    using assms by (simp only: Split_append segment_def) (simp add: Split_append)
  have "isl (ParseSubjectURL (''https://api.github.com/repos/'' @ ?rest))"
    unfolding ParseSubjectURL_rest Let_def sp by simp
  then show ?thesis by simp
qed

lemma trailing_fails:
  "isl (ParseSubjectURL (pull_reference owner repo (num @ ''/'' @ extra)))"
proof -
  let ?rest = "owner @ CHR ''/'' # repo @ CHR ''/'' # ''pulls'' @ CHR ''/'' # num @ CHR ''/'' # extra"
  have "length (Split ?rest (CHR ''/'')) \<noteq> 4"
    by (simp add: length_Split)
  then have "isl (ParseSubjectURL (''https://api.github.com/repos/'' @ ?rest))"
    unfolding ParseSubjectURL_rest Let_def by simp
  then show ?thesis by (simp add: pull_reference_def)
qed

lemma non_numeric_fails:
  assumes "\<not> signed_decimal num"
  shows "isl (ParseSubjectURL (pull_reference owner repo num))"
proof -
  let ?rest = "owner @ CHR ''/'' # repo @ CHR ''/'' # ''pulls'' @ CHR ''/'' # num"
  have u: "pull_reference owner repo num = ''https://api.github.com/repos/'' @ ?rest"
    by (simp add: pull_reference_def)
  show ?thesis
  proof (cases "length (Split ?rest (CHR ''/'')) = 4")
    case False
    then show ?thesis unfolding u ParseSubjectURL_rest Let_def by simp
  next
    case True
    then have "count_list owner (CHR ''/'') = 0 \<and> count_list repo (CHR ''/'') = 0
        \<and> count_list num (CHR ''/'') = 0"
      by (simp add: length_Split)
    then have "Split ?rest (CHR ''/'') = [owner, repo, ''pulls'', num]"
      by (subst Split_four) (simp add: count_list_zero)
    then show ?thesis
      unfolding u ParseSubjectURL_rest Let_def using assms by (simp add: Atoi_eq)
  qed
qed

text \<open>
  Claim C3, as amended. \<open>ParseSubjectURL\<close> returns owner, repository and number exactly
  when the string is the API root, \<open>repos\<close>, an owner and a repository without a slash
  (possibly empty), \<open>pulls\<close> and a decimal numeral with an optional sign whose value fits
  a 64-bit integer (zero and negative numbers included), with nothing after it; the number
  returned is the value of the numeral. Otherwise it returns an error. In particular an
  issues URL fails, a reference with further segments after the number fails, and an
  identifier that is no such numeral fails.
\<close>

theorem ParseSubjectURL_shape:
  "(ParseSubjectURL url = Inr ref \<longleftrightarrow>
      (\<exists>ow rp nm.
         url = pull_reference ow rp nm \<and> segment ow \<and> segment rp
         \<and> signed_decimal nm \<and> fits_int (signed_value nm)
         \<and> ref = \<lparr>PR_Owner = ow, PR_Repo = rp, PR_Number = signed_value nm\<rparr>))
   \<and> ((\<exists>r. ParseSubjectURL url = Inr r) \<or> (\<exists>err. ParseSubjectURL url = Inl err))
   \<and> (segment owner \<and> segment repo \<longrightarrow>
        isl (ParseSubjectURL
               (''https://api.github.com/repos/'' @ owner @ ''/'' @ repo @ ''/issues/'' @ num)))
   \<and> isl (ParseSubjectURL (pull_reference owner repo (num @ ''/'' @ extra)))
   \<and> (\<not> signed_decimal num \<longrightarrow> isl (ParseSubjectURL (pull_reference owner repo num)))"
proof -
  have "(\<exists>r. ParseSubjectURL url = Inr r) \<or> (\<exists>err. ParseSubjectURL url = Inl err)"
    by (cases "ParseSubjectURL url") auto
  then show ?thesis
    using ParseSubjectURL_Inr_iff [of url ref] issues_fails [of owner repo num]
      trailing_fails [of owner repo num extra] non_numeric_fails [of num owner repo]
    by blast
qed

theorem ParseSubjectURL_shape_witness:
  "segment ''org'' \<and> segment ''repo'' \<and> signed_decimal ''42'' \<and> fits_int (signed_value ''42'')
   \<and> ParseSubjectURL ''https://api.github.com/repos/org/repo/pulls/42''
       = Inr \<lparr>PR_Owner = ''org'', PR_Repo = ''repo'', PR_Number = 42\<rparr>
   \<and> isl (ParseSubjectURL ''https://api.github.com/repos/org/repo/issues/42'')
   \<and> isl (ParseSubjectURL ''https://api.github.com/repos/org/repo/pulls/42/reviews'')
   \<and> \<not> signed_decimal ''abc''
   \<and> isl (ParseSubjectURL ''https://api.github.com/repos/org/repo/pulls/abc'')"
  using ParseSubjectURL_shape [where url = "''https://api.github.com/repos/org/repo/pulls/42''"
          and ref = "\<lparr>PR_Owner = ''org'', PR_Repo = ''repo'', PR_Number = 42\<rparr>"
          and owner = "''org''" and repo = "''repo''" and num = "''42''"
          and extra = "''reviews''"]
        ParseSubjectURL_shape [where owner = "''org''" and repo = "''repo''"
          and num = "''abc''"]
  by (simp add: ParseSubjectURL_def HasPrefix_def TrimPrefix_def Atoi_def is_digit_def
        segment_def signed_decimal_def signed_value_def unsigned_part_def fits_int_def
        decimal_value_def pull_reference_def)

theorem ParseSubjectURL_nonpositive_counterexample:
  "ParseSubjectURL ''https://api.github.com/repos/org/repo/pulls/0''
     = Inr \<lparr>PR_Owner = ''org'', PR_Repo = ''repo'', PR_Number = 0\<rparr>
   \<and> ParseSubjectURL ''https://api.github.com/repos/org/repo/pulls/-7''
     = Inr \<lparr>PR_Owner = ''org'', PR_Repo = ''repo'', PR_Number = - 7\<rparr>"
  by (simp add: ParseSubjectURL_def HasPrefix_def TrimPrefix_def Atoi_def is_digit_def)

section \<open>Properties of the cycle\<close>

subsection \<open>One round of the loop\<close>

lemma lookup_step_fields:
  "decisions (lookup_step e c cfg verbose n st) = decisions st"
  "errCount (lookup_step e c cfg verbose n st) = errCount st"
  by (simp_all add: lookup_step_def Let_def split: option.split prod.split sum.split)

lemma lookup_step_calls:
  "calls (lookup_step e c cfg verbose n st) = calls st
     \<and> reviewersByURL (lookup_step e c cfg verbose n st) = reviewersByURL st
   \<or> NeedsReviewerLookup n cfg \<and> reviewersByURL st (URL (Subject n)) = None
     \<and> (calls (lookup_step e c cfg verbose n st)
           = calls st @ [CallGetRequestedReviewers (URL (Subject n)) False]
         \<and> reviewersByURL (lookup_step e c cfg verbose n st) = reviewersByURL st
         \<or> (\<exists>r. calls (lookup_step e c cfg verbose n st)
                 = calls st @ [CallGetRequestedReviewers (URL (Subject n)) True]
              \<and> reviewersByURL (lookup_step e c cfg verbose n st)
                 = (reviewersByURL st)(URL (Subject n) \<mapsto> r)))"
  by (auto simp add: lookup_step_def Let_def split: option.split prod.split sum.split)

lemma mutate_step_fields:
  "decisions (mutate_step e c ap d st) = decisions st"
  "reviewersByURL (mutate_step e c ap d st) = reviewersByURL st"
  by (simp_all add: mutate_step_def Let_def split: option.split prod.split)

lemma mutate_step_calls:
  "(if ap \<and> D_Action d = ActionMute then
      (\<exists>ok. (calls (mutate_step e c ap d st) = calls st @ [CallMarkThreadRead (ID (D_Notification d)) False] \<and> \<not> ok
             \<or> calls (mutate_step e c ap d st) = calls st @ [CallMarkThreadRead (ID (D_Notification d)) True, CallIgnoreThread (ID (D_Notification d)) ok])
          \<and> errCount (mutate_step e c ap d st) = errCount st + (if ok then 0 else 1))
    else calls (mutate_step e c ap d st) = calls st \<and> errCount (mutate_step e c ap d st) = errCount st)"
  by (auto simp add: mutate_step_def Let_def split: option.split prod.split)

lemma mutation_groups_append:
  "mutation_groups xs = Some gs \<Longrightarrow>
   mutation_groups (xs @ ys)
     = (case mutation_groups ys of None \<Rightarrow> None | Some hs \<Rightarrow> Some (gs @ hs))"
proof (induction xs arbitrary: gs rule: mutation_groups.induct)
  case 1
  then show ?case by (simp split: option.split)
next
  case (2 u ok cs)
  then show ?case by simp
next
  case (3 i cs)
  then show ?case by (auto split: option.split)
next
  case (4 i j ok cs)
  then show ?case by (auto split: option.split if_splits)
qed simp_all

lemma muted_threads_snoc:
  "muted_threads (ds @ [d])
     = muted_threads ds @ (if D_Action d = ActionMute then [ID (D_Notification d)] else [])"
  by (simp add: muted_threads_def)

lemma failed_groups_snoc:
  "failed_groups (gs @ [(i, ok)]) = failed_groups gs + (if ok then 0 else 1)"
  by (simp add: failed_groups_def)

lemma mutation_inv_iff:
  "mutation_inv ap st \<longleftrightarrow>
     (\<exists>gs. mutation_groups (calls st) = Some gs
        \<and> map fst gs = (if ap then muted_threads (decisions st) else [])
        \<and> errCount st = failed_groups gs)"
  by (auto simp add: mutation_inv_def split: option.split)

lemma mutation_inv_lookup:
  assumes "mutation_inv ap st"
  shows "mutation_inv ap (lookup_step e c cfg verbose n st)"
proof -
  from assms obtain gs where g: "mutation_groups (calls st) = Some gs"
      "map fst gs = (if ap then muted_threads (decisions st) else [])"
      "errCount st = failed_groups gs"
    unfolding mutation_inv_iff by blast
  have "mutation_groups (calls (lookup_step e c cfg verbose n st)) = Some gs"
    using lookup_step_calls [of e c cfg verbose n st] g(1)
    by (auto simp add: mutation_groups_append)
  with g show ?thesis
    unfolding mutation_inv_iff by (auto simp add: lookup_step_fields)
qed

lemma mutation_inv_mutate:
  assumes "mutation_inv ap st"
  shows "mutation_inv ap (mutate_step e c ap d (st\<lparr>decisions := decisions st @ [d]\<rparr>))"
proof -
  let ?st1 = "st\<lparr>decisions := decisions st @ [d]\<rparr>"
  let ?st2 = "mutate_step e c ap d ?st1"
  from assms obtain gs where g: "mutation_groups (calls st) = Some gs"
      "map fst gs = (if ap then muted_threads (decisions st) else [])"
      "errCount st = failed_groups gs"
    unfolding mutation_inv_iff by blast
  have dec: "decisions ?st2 = decisions st @ [d]" by (simp add: mutate_step_fields)
  show ?thesis
  proof (cases "ap \<and> D_Action d = ActionMute")
    case True
    with mutate_step_calls [of ap d e c ?st1] obtain ok where
      ok: "calls ?st2 = calls st @ [CallMarkThreadRead (ID (D_Notification d)) False] \<and> \<not> ok
           \<or> calls ?st2 = calls st @ [CallMarkThreadRead (ID (D_Notification d)) True,
                                        CallIgnoreThread (ID (D_Notification d)) ok]"
      and ec: "errCount ?st2 = errCount st + (if ok then 0 else 1)"
      by auto
    from ok g(1) have "mutation_groups (calls ?st2) = Some (gs @ [(ID (D_Notification d), ok)])"
      by (auto simp add: mutation_groups_append)
    moreover have "map fst (gs @ [(ID (D_Notification d), ok)])
        = (if ap then muted_threads (decisions ?st2) else [])"
      using True g(2) by (simp add: mutate_step_fields muted_threads_snoc)
    moreover have "errCount ?st2 = failed_groups (gs @ [(ID (D_Notification d), ok)])"
      using ec g(3) by (simp add: failed_groups_snoc)
    ultimately show ?thesis unfolding mutation_inv_iff by blast
  next
    case False
    with mutate_step_calls [of ap d e c ?st1]
    have "calls ?st2 = calls st" "errCount ?st2 = errCount st" by auto
    moreover have "(if ap then muted_threads (decisions ?st2) else [])
        = (if ap then muted_threads (decisions st) else [])"
      using False by (auto simp add: mutate_step_fields muted_threads_snoc)
    ultimately show ?thesis using g unfolding mutation_inv_iff by auto
  qed
qed

lemma mutation_inv_body:
  "mutation_inv ap st \<Longrightarrow> mutation_inv ap (processNotifications_body e c cfg ap verbose n st)"
  unfolding processNotifications_body_def Let_def
  using mutation_inv_mutate [OF mutation_inv_lookup] by (simp add: lookup_step_fields)

lemma mutation_inv_loop:
  "mutation_inv ap st \<Longrightarrow> mutation_inv ap (processNotifications_loop e c cfg ns ap verbose st)"
  by (induction ns arbitrary: st) (simp_all add: mutation_inv_body)


lemma lookups_of_append: "lookups_of url (xs @ ys) = lookups_of url xs @ lookups_of url ys"
  by (induction url xs rule: lookups_of.induct) simp_all

lemma success_last_snoc: "success_last (xs @ [b]) \<longleftrightarrow> True \<notin> set xs"
  by (induction xs) auto

lemma success_last_count: "success_last xs \<Longrightarrow> length (filter id xs) \<le> 1"
  by (induction xs) (auto split: if_splits)

lemma mutate_step_lookups:
  "lookups_of url (calls (mutate_step e c ap d st)) = lookups_of url (calls st)"
  by (simp add: mutate_step_def Let_def lookups_of_append split: option.split prod.split)

lemma lookup_inv_lookup:
  assumes "lookup_inv st"
  shows "lookup_inv (lookup_step e c cfg verbose n st)"
proof (intro allI)
  fix url
  let ?st' = "lookup_step e c cfg verbose n st"
  let ?u = "URL (Subject n)"
  from assms have inv: "reviewersByURL st url \<noteq> None \<longleftrightarrow> True \<in> set (lookups_of url (calls st))"
      "success_last (lookups_of url (calls st))"
      and invu: "reviewersByURL st ?u \<noteq> None \<longleftrightarrow> True \<in> set (lookups_of ?u (calls st))"
    by blast+
  from lookup_step_calls [of e c cfg verbose n st]
  consider (same) "calls ?st' = calls st" "reviewersByURL ?st' = reviewersByURL st"
    | (failed) "reviewersByURL st ?u = None"
        "calls ?st' = calls st @ [CallGetRequestedReviewers ?u False]"
        "reviewersByURL ?st' = reviewersByURL st"
    | (found) r where "reviewersByURL st ?u = None"
        "calls ?st' = calls st @ [CallGetRequestedReviewers ?u True]"
        "reviewersByURL ?st' = (reviewersByURL st)(?u \<mapsto> r)"
    by (elim disjE conjE exE) (assumption | simp)+
  then show "(reviewersByURL ?st' url \<noteq> None \<longleftrightarrow> True \<in> set (lookups_of url (calls ?st')))
      \<and> success_last (lookups_of url (calls ?st'))"
  proof cases
    case same
    with inv show ?thesis by simp
  next
    case failed
    with inv invu show ?thesis
      by (auto simp add: lookups_of_append success_last_snoc)
  next
    case found
    with inv invu show ?thesis
      by (auto simp add: lookups_of_append success_last_snoc)
  qed
qed

lemma lookup_inv_body:
  assumes "lookup_inv st"
  shows "lookup_inv (processNotifications_body e c cfg ap verbose n st)"
proof -
  from lookup_inv_lookup [OF assms, of e c cfg verbose n]
  show ?thesis
    unfolding processNotifications_body_def Let_def
    by (simp add: mutate_step_lookups mutate_step_fields)
qed

lemma lookup_inv_loop:
  "lookup_inv st \<Longrightarrow> lookup_inv (processNotifications_loop e c cfg ns ap verbose st)"
proof (induction ns arbitrary: st)
  case Nil
  then show ?case by simp
next
  case (Cons n ns)
  from Cons.IH [OF lookup_inv_body [OF Cons.prems]] show ?case by simp
qed

lemma lookup_step_count:
  "length (lookups_of url (calls (lookup_step e c cfg verbose n st)))
     \<le> length (lookups_of url (calls st)) + length (needing cfg url [n])"
  using lookup_step_calls [of e c cfg verbose n st]
  by (auto simp add: lookups_of_append needing_def)

lemma body_count:
  "length (lookups_of url (calls (processNotifications_body e c cfg ap verbose n st)))
     \<le> length (lookups_of url (calls st)) + length (needing cfg url [n])"
  unfolding processNotifications_body_def Let_def
  using lookup_step_count [of url e c cfg verbose n st]
  by (simp add: mutate_step_lookups)

lemma loop_count:
  "length (lookups_of url (calls (processNotifications_loop e c cfg ns ap verbose st)))
     \<le> length (lookups_of url (calls st)) + length (needing cfg url ns)"
proof (induction ns arbitrary: st)
  case Nil
  then show ?case by (simp add: needing_def)
next
  case (Cons n ns)
  have "needing cfg url (n # ns) = needing cfg url [n] @ needing cfg url ns"
    by (simp add: needing_def)
  with Cons.IH [of "processNotifications_body e c cfg ap verbose n st"]
    body_count [of url e c cfg ap verbose n st]
  show ?case by simp
qed

subsection \<open>Running the model on the example servers\<close>

lemmas http_defs = do_def NewRequest_def httpClient_Do_def setStandardHeaders_def
      Header_Set_def isRateLimited_def parseRetryAfter_def Header_Get_def stdHeader_def
      client0_def drained_def

lemma digit_chars:
  "char_of (48::nat) = CHR ''0''" "char_of (49::nat) = CHR ''1''"
  "char_of (50::nat) = CHR ''2''" "char_of (51::nat) = CHR ''3''"
  "char_of (52::nat) = CHR ''4''" "char_of (53::nat) = CHR ''5''"
  "char_of (54::nat) = CHR ''6''" "char_of (55::nat) = CHR ''7''"
  "char_of (56::nat) = CHR ''8''" "char_of (57::nat) = CHR ''9''"
  by code_simp+

lemmas parse_defs = ParseSubjectURL_def HasPrefix_def TrimPrefix_def
      Atoi_def is_digit_def Itoa_def digits_of.simps digit_chars

lemma GetRequestedReviewers_always500:
  "GetRequestedReviewers always500 client0 url42 evs
   = (Inl (Errorf ''get reviewers for org/repo#42: unexpected status 500''),
      evs @ [Sent lookup42])"
  by (simp add: GetRequestedReviewers_def http_defs parse_defs always500_def url42_def
        lookup42_def)

lemma GetRequestedReviewers_served:
  "GetRequestedReviewers readOnly client0 url42 evs
   = (Inr \<lparr>Users = [''alice''], Teams = [''backend'']\<rparr>, evs @ [Sent lookup42])"
  "GetRequestedReviewers serveAll client0 url42 evs
   = (Inr \<lparr>Users = [''alice''], Teams = [''backend'']\<rparr>, evs @ [Sent lookup42])"
  by (simp_all add: GetRequestedReviewers_def http_defs parse_defs readOnly_def serveAll_def
        toReviewers_def url42_def lookup42_def)

lemma MarkThreadRead_readOnly:
  "MarkThreadRead readOnly client0 i evs
   = (Some (Errorf (''mark thread '' @ i @ '' read: unexpected status 500'')),
      evs @ [Sent \<lparr>Method = ''PATCH'',
                   ReqURL = ''https://api.github.com/notifications/threads/'' @ i,
                   ReqHeader = stdHeader, ReqBody = []\<rparr>])"
  by (simp add: MarkThreadRead_def Let_def http_defs parse_defs readOnly_def)

lemma MarkThreadRead_serveAll:
  "MarkThreadRead serveAll client0 i evs
   = (None,
      evs @ [Sent \<lparr>Method = ''PATCH'',
                   ReqURL = ''https://api.github.com/notifications/threads/'' @ i,
                   ReqHeader = stdHeader, ReqBody = []\<rparr>])"
  by (simp add: MarkThreadRead_def Let_def http_defs serveAll_def)

lemma IgnoreThread_serveAll:
  "IgnoreThread serveAll client0 i evs
   = (None,
      evs @ [Sent \<lparr>Method = ''PUT'',
                   ReqURL = ''https://api.github.com/notifications/threads/'' @ i
                              @ ''/subscription'',
                   ReqHeader = stdHeader, ReqBody = ignored_true\<rparr>])"
  by (simp add: IgnoreThread_def Let_def http_defs serveAll_def)

lemma example_notifications:
  "NeedsReviewerLookup prNotif noFilter" "NeedsReviewerLookup prNotif7 noFilter"
  "URL (Subject prNotif) = url42" "URL (Subject prNotif7) = url42"
  "ID prNotif = ''1''" "ID prNotif7 = ''7''"
  "Classify prNotif None ''me'' noFilter
     = \<lparr>D_Notification = prNotif, D_Action = ActionSkip, D_Reason = ''no reviewer data''\<rparr>"
  "Classify prNotif7 None ''me'' noFilter
     = \<lparr>D_Notification = prNotif7, D_Action = ActionSkip, D_Reason = ''no reviewer data''\<rparr>"
  "Classify prNotif (Some \<lparr>Users = [''alice''], Teams = [''backend'']\<rparr>) ''me'' noFilter
     = \<lparr>D_Notification = prNotif, D_Action = ActionMute,
        D_Reason = ''team-only review request''\<rparr>"
  "Classify prNotif7 (Some \<lparr>Users = [''alice''], Teams = [''backend'']\<rparr>) ''me'' noFilter
     = \<lparr>D_Notification = prNotif7, D_Action = ActionMute,
        D_Reason = ''team-only review request''\<rparr>"
  by (simp_all add: NeedsReviewerLookup_def MatchesOrgFilter_def Classify_def prNotif_def
        prNotif7_def noFilter_def url42_def fold_byte_eq_def)

lemma client0_login: "client_login client0 = ''me''"
  by (simp add: client0_def)

lemmas cycle_defs = processNotifications_def processNotifications_body_def lookup_step_def
  mutate_step_def Let_def example_notifications client0_login

lemma run_always500:
  "calls (processNotifications always500 client0 noFilter [prNotif, prNotif7] False False [])
     = [CallGetRequestedReviewers url42 False, CallGetRequestedReviewers url42 False]"
  "events (processNotifications always500 client0 noFilter [prNotif, prNotif7] False False [])
     = [Sent lookup42, Sent lookup42]"
  by (simp_all add: cycle_defs GetRequestedReviewers_always500)

lemma run_readOnly:
  "calls (processNotifications readOnly client0 noFilter [prNotif, prNotif7] True False [])
     = [CallGetRequestedReviewers url42 True, CallMarkThreadRead ''1'' False,
        CallMarkThreadRead ''7'' False]"
  "errCount (processNotifications readOnly client0 noFilter [prNotif, prNotif7] True False [])
     = 2"
  "map D_Action
     (decisions (processNotifications readOnly client0 noFilter [prNotif, prNotif7] True
        False []))
     = [ActionMute, ActionMute]"
  "map D_Notification
     (decisions (processNotifications readOnly client0 noFilter [prNotif, prNotif7] True
        False []))
     = [prNotif, prNotif7]"
  by (simp_all add: cycle_defs GetRequestedReviewers_served MarkThreadRead_readOnly)

lemma run_serveAll:
  "calls (processNotifications serveAll client0 noFilter [prNotif, prNotif7] True False [])
     = [CallGetRequestedReviewers url42 True, CallMarkThreadRead ''1'' True,
        CallIgnoreThread ''1'' True, CallMarkThreadRead ''7'' True,
        CallIgnoreThread ''7'' True]"
  "errCount (processNotifications serveAll client0 noFilter [prNotif, prNotif7] True False [])
     = 0"
  by (simp_all add: cycle_defs GetRequestedReviewers_served MarkThreadRead_serveAll
        IgnoreThread_serveAll)

subsection \<open>Mutations\<close>

text \<open>
  Claim C10. With the mutate flag set, the calls of a cycle read as one mutation group per
  decision with action Mute, in the order of the decisions: the ignore call for a thread is
  made only directly after a successful mark-as-read of that thread, and a failed
  mark-as-read is followed by no ignore call. The error count is the number of failed
  groups: one error per decision whose mutation failed, whichever of the two calls failed.
  Without the flag there is no mutation call and no error. In one round of the loop, for a
  decision with action Mute: when mark-as-read fails, nothing is sent after it, the ignore
  call is not made and the error count grows by one; when it succeeds, the ignore call
  follows, and the error count grows by one exactly when that call fails.
\<close>

theorem mutations_in_order:
  "(\<exists>gs. mutation_groups (calls (processNotifications e c cfg ns ap verbose evs)) = Some gs
      \<and> map fst gs
          = (if ap then muted_threads
                          (decisions (processNotifications e c cfg ns ap verbose evs))
             else [])
      \<and> errCount (processNotifications e c cfg ns ap verbose evs) = failed_groups gs)
   \<and> (D_Action d = ActionMute
        \<and> fst (MarkThreadRead e c (ID (D_Notification d)) (events st)) \<noteq> None \<longrightarrow>
        events (mutate_step e c True d st)
          = snd (MarkThreadRead e c (ID (D_Notification d)) (events st))
        \<and> calls (mutate_step e c True d st)
          = calls st @ [CallMarkThreadRead (ID (D_Notification d)) False]
        \<and> errCount (mutate_step e c True d st) = errCount st + 1)
   \<and> (D_Action d = ActionMute
        \<and> fst (MarkThreadRead e c (ID (D_Notification d)) (events st)) = None \<longrightarrow>
        events (mutate_step e c True d st)
          = snd (IgnoreThread e c (ID (D_Notification d))
                   (snd (MarkThreadRead e c (ID (D_Notification d)) (events st))))
        \<and> errCount (mutate_step e c True d st)
          = errCount st
            + (if fst (IgnoreThread e c (ID (D_Notification d))
                         (snd (MarkThreadRead e c (ID (D_Notification d)) (events st))))
                  = None
               then 0 else 1))"
proof -
  let ?st0 = "\<lparr>reviewersByURL = Map.empty, decisions = [], errCount = 0, calls = [],
        printed = [], events = evs\<rparr>"
  have "mutation_inv ap ?st0"
    by (simp add: mutation_inv_def muted_threads_def failed_groups_def)
  from mutation_inv_loop [OF this, of e c cfg ns verbose]
  have run: "\<exists>gs. mutation_groups (calls (processNotifications e c cfg ns ap verbose evs))
                   = Some gs
      \<and> map fst gs
          = (if ap then muted_threads
                          (decisions (processNotifications e c cfg ns ap verbose evs))
             else [])
      \<and> errCount (processNotifications e c cfg ns ap verbose evs) = failed_groups gs"
    unfolding processNotifications_def mutation_inv_iff .
  have round: "D_Action d = ActionMute \<Longrightarrow>
      (case MarkThreadRead e c (ID (D_Notification d)) (events st) of
         (Some err, evs1) \<Rightarrow>
           events (mutate_step e c True d st) = evs1
           \<and> calls (mutate_step e c True d st)
               = calls st @ [CallMarkThreadRead (ID (D_Notification d)) False]
           \<and> errCount (mutate_step e c True d st) = errCount st + 1
       | (None, evs1) \<Rightarrow>
           events (mutate_step e c True d st)
             = snd (IgnoreThread e c (ID (D_Notification d)) evs1)
           \<and> errCount (mutate_step e c True d st)
             = errCount st
               + (if fst (IgnoreThread e c (ID (D_Notification d)) evs1) = None
                  then 0 else 1))"
    by (simp add: mutate_step_def Let_def split: option.split prod.split)
  from run round show ?thesis
    by (cases "MarkThreadRead e c (ID (D_Notification d)) (events st)") auto
qed

theorem mutations_in_order_witness:
  "mutation_groups
     (calls (processNotifications readOnly client0 noFilter [prNotif, prNotif7] True False []))
     = Some [(''1'', False), (''7'', False)]
   \<and> muted_threads
       (decisions (processNotifications readOnly client0 noFilter [prNotif, prNotif7] True
          False []))
     = [''1'', ''7'']
   \<and> errCount (processNotifications readOnly client0 noFilter [prNotif, prNotif7] True False [])
     = 2
   \<and> mutation_groups
       (calls (processNotifications serveAll client0 noFilter [prNotif, prNotif7] True False
          []))
     = Some [(''1'', True), (''7'', True)]
   \<and> errCount (processNotifications serveAll client0 noFilter [prNotif, prNotif7] True False [])
     = 0
   \<and> fst (MarkThreadRead readOnly client0 ''1'' []) \<noteq> None
   \<and> fst (MarkThreadRead serveAll client0 ''1'' []) = None"
  using mutations_in_order [where e = readOnly and c = client0 and cfg = noFilter
          and ns = "[prNotif, prNotif7]" and ap = True and verbose = False and evs = "[]"
          and d = "\<lparr>D_Notification = prNotif, D_Action = ActionMute, D_Reason = []\<rparr>"
          and st = "\<lparr>reviewersByURL = Map.empty, decisions = [], errCount = 0, calls = [],
                     printed = [], events = []\<rparr>"]
        mutations_in_order [where e = serveAll and c = client0 and cfg = noFilter
          and ns = "[prNotif, prNotif7]" and ap = True and verbose = False and evs = "[]"
          and d = "\<lparr>D_Notification = prNotif, D_Action = ActionMute, D_Reason = []\<rparr>"
          and st = "\<lparr>reviewersByURL = Map.empty, decisions = [], errCount = 0, calls = [],
                     printed = [], events = []\<rparr>"]
  by (simp add: run_readOnly run_serveAll MarkThreadRead_readOnly MarkThreadRead_serveAll
        muted_threads_def)

subsection \<open>Reviewer lookups\<close>

text \<open>
  Claim C4, as amended. Within one cycle a reviewer lookup that succeeds is cached under
  its subject URL: no lookup for a URL follows a successful one, so at most one lookup per
  distinct URL succeeds, and at the end the cache holds a URL exactly when a lookup for it
  succeeded. Lookups are made only for notifications that need one, at most one for each.
  A failed lookup is not cached, so notifications that share a URL whose lookup fails may
  each make a lookup.
\<close>

theorem lookups_deduplicated:
  "success_last (lookups_of url (calls (processNotifications e c cfg ns ap verbose evs)))
   \<and> length (filter id
               (lookups_of url (calls (processNotifications e c cfg ns ap verbose evs))))
       \<le> 1
   \<and> (reviewersByURL (processNotifications e c cfg ns ap verbose evs) url \<noteq> None
       \<longleftrightarrow> True \<in> set (lookups_of url
                         (calls (processNotifications e c cfg ns ap verbose evs))))
   \<and> length (lookups_of url (calls (processNotifications e c cfg ns ap verbose evs)))
       \<le> length (needing cfg url ns)"
proof -
  let ?st0 = "\<lparr>reviewersByURL = Map.empty, decisions = [], errCount = 0, calls = [],
        printed = [], events = evs\<rparr>"
  have "lookup_inv ?st0" by simp
  from lookup_inv_loop [OF this, of e c cfg ns ap verbose]
  have inv: "lookup_inv (processNotifications e c cfg ns ap verbose evs)"
    unfolding processNotifications_def .
  moreover from loop_count [of url e c cfg ns ap verbose ?st0]
  have "length (lookups_of url (calls (processNotifications e c cfg ns ap verbose evs)))
       \<le> length (needing cfg url ns)"
    unfolding processNotifications_def by simp
  ultimately show ?thesis using success_last_count by blast
qed

theorem lookups_deduplicated_witness:
  "lookups_of url42
     (calls (processNotifications readOnly client0 noFilter [prNotif, prNotif7] True False []))
     = [True]
   \<and> reviewersByURL
       (processNotifications readOnly client0 noFilter [prNotif, prNotif7] True False [])
       url42 \<noteq> None
   \<and> length (needing noFilter url42 [prNotif, prNotif7]) = 2"
  using lookups_deduplicated [of url42 readOnly client0 noFilter "[prNotif, prNotif7]" True
          False "[]"]
  by (simp add: run_readOnly needing_def example_notifications)

theorem lookups_repeat_after_failure_counterexample:
  "URL (Subject prNotif) = URL (Subject prNotif7)
   \<and> calls (processNotifications always500 client0 noFilter [prNotif, prNotif7] False False [])
       = [CallGetRequestedReviewers url42 False, CallGetRequestedReviewers url42 False]
   \<and> events (processNotifications always500 client0 noFilter [prNotif, prNotif7] False False
               [])
       = [Sent lookup42, Sent lookup42]"
  by (simp add: run_always500 example_notifications)

subsection \<open>Throttling\<close>

text \<open>
  What \<open>do\<close> does with a request that has no body: an answer that is not throttled is
  returned at once; a throttled answer is followed by one sleep of the duration
  \<open>parseRetryAfter\<close> gives and one more send of the same request, whose outcome is returned
  whatever it is.
\<close>

lemma do_immediate:
  assumes "ParseURL_ok e url"
    and "RoundTrip e evs
           (setStandardHeaders c \<lparr>Method = m, ReqURL = url, ReqHeader = [], ReqBody = []\<rparr>)
         = Inr resp"
    and "\<not> isRateLimited resp"
  shows "do e c m url None evs
         = (Inr resp,
            evs @ [Sent (setStandardHeaders c
                     \<lparr>Method = m, ReqURL = url, ReqHeader = [], ReqBody = []\<rparr>)])"
  using assms by (simp add: do_def NewRequest_def httpClient_Do_def)

lemma do_retries_once:
  assumes "ParseURL_ok e url"
    and "req = setStandardHeaders c \<lparr>Method = m, ReqURL = url, ReqHeader = [], ReqBody = []\<rparr>"
    and "RoundTrip e evs req = Inr resp0"
    and "isRateLimited resp0"
  shows "do e c m url None evs
         = (RoundTrip e (evs @ [Sent req, Slept (parseRetryAfter resp0)]) req,
            evs @ [Sent req, Slept (parseRetryAfter resp0), Sent req])"
  using assms
  by (cases "RoundTrip e (evs @ [Sent req, Slept (parseRetryAfter resp0)]) req")
    (simp_all add: do_def NewRequest_def httpClient_Do_def drained_def Let_def)

lemma parseRetryAfter_fallback:
  assumes "Header_Get (Header resp) ''Retry-After'' = []
           \<or> isl (Atoi (Header_Get (Header resp) ''Retry-After''))"
  shows "parseRetryAfter resp = 60000000000"
  using assms
  by (auto simp add: parseRetryAfter_def Let_def wrap64_def Second_def split: sum.splits)

lemma parseRetryAfter_hint:
  assumes "Atoi (Header_Get (Header resp) ''Retry-After'') = Inr secs"
    and "- 9223372036 \<le> secs" and "secs \<le> 9223372036"
  shows "parseRetryAfter resp = secs * 1000000000"
proof -
  from assms(1) have "Header_Get (Header resp) ''Retry-After'' \<noteq> []"
    by (auto simp add: Atoi_def)
  moreover from assms(2,3) have "wrap64 (secs * 1000000000) = secs * 1000000000"
    by (simp add: wrap64_def)
  ultimately show ?thesis
    using assms(1) by (simp add: parseRetryAfter_def Let_def seconds_def Second_def)
qed

text \<open>
  Claim C8, at a request with a body. \<open>IgnoreThread\<close> sends a PUT whose body is the JSON
  text that sets \<open>ignored\<close>. When the server throttles it with status 429 and no
  retry-after hint, \<open>do\<close> sleeps for 60 seconds and sends the request once more, built from
  the same body reader, which the first attempt has read to its end: the second request
  has an empty body, and its success is reported as the success of the call. On a server
  that serves the first attempt, the one request sent carries the body.
\<close>

theorem IgnoreThread_retry_has_no_body:
  "IgnoreThread throttledOnce client0 ''1'' []
     = (None,
        [Sent \<lparr>Method = ''PUT'',
               ReqURL = ''https://api.github.com/notifications/threads/1/subscription'',
               ReqHeader = stdHeader, ReqBody = ignored_true\<rparr>,
         Slept 60000000000,
         Sent \<lparr>Method = ''PUT'',
               ReqURL = ''https://api.github.com/notifications/threads/1/subscription'',
               ReqHeader = stdHeader, ReqBody = []\<rparr>])
   \<and> IgnoreThread serveAll client0 ''1'' []
     = (None,
        [Sent \<lparr>Method = ''PUT'',
               ReqURL = ''https://api.github.com/notifications/threads/1/subscription'',
               ReqHeader = stdHeader, ReqBody = ignored_true\<rparr>])"
  by (simp add: IgnoreThread_def Let_def http_defs throttledOnce_def serveAll_def wrap64_def
        Second_def)

section \<open>Properties of the inbox fetch\<close>

















end
